theory Spec2Isabelle
  imports Complex_Main
begin

section \<open>The lora browser component \<open>AddLoraText\<close>\<close>

text \<open>
  The component of \<^verbatim>\<open>src/components/PromptForm/AddLoraText.tsx\<close> keeps eight pieces of
  local state (\<^verbatim>\<open>useState\<close>), reads and replaces one list of the shared store, and reacts
  to events: a keystroke in the search field, the expiry of the debounce timer, a scroll
  of the result container, the settling of the promise returned by \<^verbatim>\<open>getTunes\<close>, a click
  on the retry button, on a card, on a remove button, and the dialog's open/close request.

  The model is a state record and one function per handler.  The state updates of one
  handler are committed together (React batches them), and each handler and each effect
  runs against the state of the latest committed render, so the variables a closure
  captured (\<^verbatim>\<open>loading\<close>, \<^verbatim>\<open>page\<close>, \<^verbatim>\<open>debouncedSearch\<close>, \<^verbatim>\<open>loraTextList\<close>) are read from the
  state the handler is applied to.  The one closure that outlives its render is the
  continuation of \<^verbatim>\<open>fetchTunes\<close> after \<^verbatim>\<open>await\<close>: the \<^verbatim>\<open>page\<close> it tests is the one captured when
  the request was issued, so every outstanding request carries its arguments.
\<close>

subsection \<open>Data\<close>

record tune =
  tune_id :: string
  title :: string
  orig_images :: "string list"

text \<open>\<^verbatim>\<open>AddLoraTextProps\<close>: both callbacks are optional; the flags say whether one was passed.\<close>

record props =
  has_onSelect :: bool
  has_onRemove :: bool

text \<open>A rejected promise carries a value; only its being logged is observable here.\<close>

type_synonym js_error = string

text \<open>The arguments of one call \<^verbatim>\<open>getTunes(page, ITEMS_PER_PAGE, debouncedSearch)\<close>.\<close>

type_synonym request = "int \<times> nat \<times> string"

definition ITEMS_PER_PAGE :: nat where
  "ITEMS_PER_PAGE = 12"

text \<open>
  \<^verbatim>\<open>e.currentTarget\<close> of a scroll event: the three measurements the handler reads.  They are
  JavaScript numbers, that is finite binary64 values, each given as the real it denotes.
\<close>

record scroll_target =
  scrollTop :: real
  clientHeight :: real
  scrollHeight :: real

text \<open>
  The \<^verbatim>\<open>useState\<close> cells, the store's list, and what the environment holds for the
  component: the pending debounce timeout with the search term its callback captured, the
  outstanding \<^verbatim>\<open>getTunes\<close> calls in the order they were issued, and the logs of the calls
  made to the two callbacks and to \<^verbatim>\<open>console.error\<close>.  \<^verbatim>\<open>loraTextList[index]\<close> out of range
  is \<^verbatim>\<open>undefined\<close>, here \<open>None\<close>.
\<close>

record state =
  isOpen :: bool
  tunes :: "tune list"
  loading :: bool
  error :: "string option"
  page :: int
  hasMore :: bool
  searchQuery :: string
  debouncedSearch :: string
  loraTextList :: "string list"
  timer :: "string option"
  inflight :: "request list"
  onSelect_calls :: "tune list"
  onRemove_calls :: "string option list"
  console :: "js_error list"

definition initial :: "string list \<Rightarrow> state" where
  "initial store =
     \<lparr> isOpen = False, tunes = [], loading = False, error = None, page = 1,
       hasMore = True, searchQuery = [], debouncedSearch = [],
       loraTextList = store, timer = None, inflight = [],
       onSelect_calls = [], onRemove_calls = [], console = [] \<rparr>"

subsection \<open>\<^verbatim>\<open>fetchTunes\<close>\<close>

text \<open>
  Up to the \<^verbatim>\<open>await\<close>: the guard, the two setters, and the call of \<^verbatim>\<open>getTunes\<close>.
\<close>

definition fetchTunes :: "state \<Rightarrow> state" where
  "fetchTunes st =
     (if loading st then st
      else st\<lparr> loading := True, error := None,
               inflight := inflight st @ [(page st, ITEMS_PER_PAGE, debouncedSearch st)] \<rparr>)"

text \<open>
  After the \<^verbatim>\<open>await\<close>, for the request \<open>req\<close> and the outcome of its promise (\<open>Inl\<close> a
  rejection, \<open>Inr\<close> the response): the rest of the \<^verbatim>\<open>try\<close> block, the \<^verbatim>\<open>catch\<close> block and the
  \<^verbatim>\<open>finally\<close> block.  The result is \<open>Inl\<close> when an exception leaves the function.
\<close>

definition try_block :: "request \<Rightarrow> js_error + tune list \<Rightarrow> state \<Rightarrow> js_error + state" where
  "try_block req outcome st =
     (case outcome of
        Inl err \<Rightarrow> Inl err
      | Inr response \<Rightarrow>
          Inr (st\<lparr> tunes := (if fst req = 1 then response else tunes st @ response),
                   hasMore := (length response > 0 \<and> length response = ITEMS_PER_PAGE) \<rparr>))"

definition catch_block :: "state \<Rightarrow> js_error + state \<Rightarrow> js_error + state" where
  "catch_block st tried =
     (case tried of
        Inl err \<Rightarrow>
          Inr (st\<lparr> error := Some ''Failed to load tunes. Please try again.'',
                   console := console st @ [err] \<rparr>)
      | Inr st' \<Rightarrow> Inr st')"

definition finally_block :: "js_error + state \<Rightarrow> js_error + state" where
  "finally_block res =
     (case res of
        Inl err \<Rightarrow> Inl err
      | Inr st' \<Rightarrow> Inr (st'\<lparr> loading := False \<rparr>))"

definition fetchTunes_settle :: "request \<Rightarrow> js_error + tune list \<Rightarrow> state \<Rightarrow> js_error + state" where
  "fetchTunes_settle req outcome st =
     finally_block (catch_block st (try_block req outcome st))"

subsection \<open>JavaScript numbers\<close>

text \<open>
  Arithmetic on JavaScript numbers computes the exact result and rounds it to the nearest
  binary64 value, ties to the even significand.  \<open>round_half_even\<close> rounds to an integer
  that way.  A binary64 value of magnitude in the binade \<open>[2^e, 2^(e + 1))\<close> is a multiple of
  \<open>2^(e - 52)\<close>; below \<open>2^(- 1022)\<close> (the subnormal range) the spacing stays \<open>2^(- 1074)\<close>.  A
  magnitude that rounds to \<open>2^1024\<close> or more becomes \<^verbatim>\<open>Infinity\<close>, for which \<open>js_infinity\<close>
  stands: it compares with the finite values as \<^verbatim>\<open>Infinity\<close> does.  The operands of the handler
  are finite, so no \<^verbatim>\<open>NaN\<close> arises.
\<close>

definition round_half_even :: "real \<Rightarrow> int" where
  "round_half_even q =
     (let n = \<lfloor>q\<rfloor>; d = q - of_int n
      in if d < 1 / 2 then n else if 1 / 2 < d then n + 1 else if even n then n else n + 1)"

definition binade :: "real \<Rightarrow> int" where
  "binade x = max \<lfloor>log 2 \<bar>x\<bar>\<rfloor> (- 1022)"

definition ulp :: "real \<Rightarrow> real" where
  "ulp x = 2 powr of_int (binade x - 52)"

definition magnitude :: "real \<Rightarrow> real" where
  "magnitude x = of_int (round_half_even (\<bar>x\<bar> / ulp x)) * ulp x"

definition js_infinity :: real where
  "js_infinity = 2 ^ 1024"

definition binary64 :: "real \<Rightarrow> real" where
  "binary64 x =
     (let m = min (magnitude x) js_infinity in if x < 0 then - m else m)"

text \<open>\<^verbatim>\<open>a - b\<close> and \<^verbatim>\<open>a * b\<close> on numbers.\<close>

definition js_sub :: "real \<Rightarrow> real \<Rightarrow> real" where
  "js_sub a b = binary64 (a - b)"

definition js_mul :: "real \<Rightarrow> real \<Rightarrow> real" where
  "js_mul a b = binary64 (a * b)"

subsection \<open>The other handlers\<close>

definition handleScroll :: "scroll_target \<Rightarrow> state \<Rightarrow> state" where
  "handleScroll e st =
     (if js_sub (scrollHeight e) (scrollTop e) \<le> js_mul (clientHeight e) 1.5 \<and>
         hasMore st \<and> \<not> loading st
      then st\<lparr> page := page st + 1 \<rparr>
      else st)"

definition lora_text :: "tune \<Rightarrow> string" where
  "lora_text t = ''<lora:'' @ tune_id t @ '':1>''"

definition handleSelect :: "props \<Rightarrow> tune \<Rightarrow> state \<Rightarrow> state" where
  "handleSelect pr t st =
     st\<lparr> loraTextList := loraTextList st @ [lora_text t],
         onSelect_calls := (if has_onSelect pr then onSelect_calls st @ [t]
                            else onSelect_calls st),
         isOpen := False \<rparr>"

text \<open>\<^verbatim>\<open>xs.filter((x, i) => p(x, i))\<close>; the second argument is the index of the first element.\<close>

fun filter_index :: "('a \<Rightarrow> nat \<Rightarrow> bool) \<Rightarrow> nat \<Rightarrow> 'a list \<Rightarrow> 'a list" where
  "filter_index p i [] = []"
| "filter_index p i (x # xs) =
     (if p x i then x # filter_index p (Suc i) xs else filter_index p (Suc i) xs)"

definition js_index :: "'a list \<Rightarrow> nat \<Rightarrow> 'a option" where
  "js_index xs i = (if i < length xs then Some (xs ! i) else None)"

text \<open>The \<^verbatim>\<open>onClick\<close> of the remove button rendered for position \<open>index\<close>.\<close>

definition handleRemove :: "props \<Rightarrow> nat \<Rightarrow> state \<Rightarrow> state" where
  "handleRemove pr index st =
     st\<lparr> loraTextList := filter_index (\<lambda>_ i. i \<noteq> index) 0 (loraTextList st),
         onRemove_calls := (if has_onRemove pr
                            then onRemove_calls st @ [js_index (loraTextList st) index]
                            else onRemove_calls st) \<rparr>"

text \<open>\<^verbatim>\<open>{error && (...)}\<close>: the message and the retry button are rendered for a truthy \<^verbatim>\<open>error\<close>.\<close>

definition error_visible :: "state \<Rightarrow> bool" where
  "error_visible st = (case error st of None \<Rightarrow> False | Some msg \<Rightarrow> msg \<noteq> [])"

subsection \<open>Effects\<close>

text \<open>
  After a render is committed, an effect runs when one of its dependencies differs from
  the previous render's.  The debounce effect (dependency \<^verbatim>\<open>searchQuery\<close>) clears the old
  timeout and sets a new one; the fetch effect (dependencies \<^verbatim>\<open>page\<close>, \<^verbatim>\<open>debouncedSearch\<close>)
  calls \<^verbatim>\<open>fetchTunes\<close>.  They run in the order they are declared.
\<close>

definition debounce_effect :: "state \<Rightarrow> state \<Rightarrow> state" where
  "debounce_effect old st =
     (if searchQuery st \<noteq> searchQuery old then st\<lparr> timer := Some (searchQuery st) \<rparr> else st)"

definition fetch_effect :: "state \<Rightarrow> state \<Rightarrow> state" where
  "fetch_effect old st =
     (if page st \<noteq> page old \<or> debouncedSearch st \<noteq> debouncedSearch old
      then fetchTunes st else st)"

definition commit :: "state \<Rightarrow> state \<Rightarrow> state" where
  "commit old st = fetch_effect old (debounce_effect old st)"

text \<open>The callback of \<^verbatim>\<open>setTimeout\<close>, with the search term \<open>q\<close> it captured.\<close>

definition debounce_fire :: "string \<Rightarrow> state \<Rightarrow> state" where
  "debounce_fire q st = st\<lparr> debouncedSearch := q, page := 1, tunes := [], timer := None \<rparr>"

text \<open>Mounting runs both effects once.\<close>

definition mount :: "string list \<Rightarrow> state" where
  "mount store = fetchTunes ((initial store)\<lparr> timer := Some (searchQuery (initial store)) \<rparr>)"

subsection \<open>Events\<close>

datatype event =
    Keystroke string
  | TimerFire
  | Scroll scroll_target
  | Settle "js_error + tune list"
  | Retry
  | Select tune
  | Remove nat
  | OpenChange bool

text \<open>
  One event, then the effects of the render it causes.  \<open>TimerFire\<close> is the expiry of the
  pending timeout (300 ms after the last change of \<^verbatim>\<open>searchQuery\<close>); \<open>Settle\<close> settles the
  oldest outstanding request.  An event that cannot occur (no timeout pending, no request
  outstanding, no retry button rendered) leaves the state as it is.
\<close>

definition step :: "props \<Rightarrow> event \<Rightarrow> state \<Rightarrow> state" where
  "step pr ev st =
     (case ev of
        Keystroke s \<Rightarrow> commit st (st\<lparr> searchQuery := s \<rparr>)
      | TimerFire \<Rightarrow>
          (case timer st of
             None \<Rightarrow> st
           | Some q \<Rightarrow> commit st (debounce_fire q st))
      | Scroll e \<Rightarrow> commit st (handleScroll e st)
      | Settle outcome \<Rightarrow>
          (case inflight st of
             [] \<Rightarrow> st
           | req # rest \<Rightarrow>
               (case fetchTunes_settle req outcome (st\<lparr> inflight := rest \<rparr>) of
                  Inl err \<Rightarrow> st
                | Inr st' \<Rightarrow> commit st st'))
      | Retry \<Rightarrow> (if error_visible st then commit st (fetchTunes st) else st)
      | Select t \<Rightarrow> commit st (handleSelect pr t st)
      | Remove index \<Rightarrow> commit st (handleRemove pr index st)
      | OpenChange b \<Rightarrow> commit st (st\<lparr> isOpen := b \<rparr>))"

definition run :: "props \<Rightarrow> event list \<Rightarrow> state \<Rightarrow> state" where
  "run pr evs st = foldl (\<lambda>s ev. step pr ev s) st evs"

text \<open>
  What holds of every state the component reaches: the loading flag is set exactly while
  one request is outstanding, no error is shown meanwhile, and the page the request was
  issued for is the current one unless the debounce timer has since reset the counter and
  cleared the list; a pending timeout captured the current search term.
\<close>

definition consistent :: "state \<Rightarrow> bool" where
  "consistent st =
    ((case inflight st of
        [] \<Rightarrow> \<not> loading st
      | req # rest \<Rightarrow>
          rest = [] \<and> loading st \<and> error st = None \<and> 1 \<le> fst req \<and>
          (fst req = page st \<or> (page st = 1 \<and> tunes st = [])))
     \<and> (case timer st of None \<Rightarrow> True | Some q \<Rightarrow> q = searchQuery st)
     \<and> 1 \<le> page st)"

subsection \<open>Sample inputs\<close>

definition no_callbacks :: props where
  "no_callbacks = \<lparr> has_onSelect = False, has_onRemove = False \<rparr>"

definition both_callbacks :: props where
  "both_callbacks = \<lparr> has_onSelect = True, has_onRemove = True \<rparr>"

definition tune_abc :: tune where
  "tune_abc = \<lparr> tune_id = ''abc'', title = ''A tune'', orig_images = [] \<rparr>"

definition at_threshold :: scroll_target where
  "at_threshold = \<lparr> scrollTop = 100, clientHeight = 200, scrollHeight = 400 \<rparr>"

definition mid_scroll :: scroll_target where
  "mid_scroll = \<lparr> scrollTop = 0, clientHeight = 100, scrollHeight = 200 \<rparr>"

definition just_above :: scroll_target where
  "just_above = \<lparr> scrollTop = 100 - 1 / 2 ^ 46, clientHeight = 200, scrollHeight = 400 \<rparr>"

section \<open>Basic facts\<close>

subsection \<open>Rounding to binary64 is monotone\<close>

lemma js_infinity_pos: "0 < js_infinity"
  by (simp add: js_infinity_def)

lemma round_half_even_of_int: "round_half_even (of_int k) = k"
  by (simp add: round_half_even_def)

lemma round_half_even_bounds:
  "\<lfloor>q\<rfloor> \<le> round_half_even q \<and> round_half_even q \<le> \<lfloor>q\<rfloor> + 1"
  by (simp add: round_half_even_def Let_def)

lemma round_half_even_mono:
  assumes "p \<le> q"
  shows "round_half_even p \<le> round_half_even q"
proof (cases "\<lfloor>p\<rfloor> = \<lfloor>q\<rfloor>")
  case True
  with assms have "p - of_int \<lfloor>p\<rfloor> \<le> q - of_int \<lfloor>q\<rfloor>"
    by simp
  with True show ?thesis
    by (auto simp: round_half_even_def Let_def)
next
  case False
  with assms have "\<lfloor>p\<rfloor> + 1 \<le> \<lfloor>q\<rfloor>"
    using floor_mono [of p q] by linarith
  with round_half_even_bounds [of p] round_half_even_bounds [of q] show ?thesis
    by linarith
qed

lemma ulp_pos: "0 < ulp x"
  by (simp add: ulp_def)

lemma binade_mono: "0 < x \<Longrightarrow> x \<le> y \<Longrightarrow> binade x \<le> binade y"
  unfolding binade_def by (intro max.mono floor_mono) (simp_all add: log_mono)

lemma binade_upper: "0 < x \<Longrightarrow> x < 2 powr of_int (binade x + 1)"
proof -
  assume x: "0 < x"
  have "x < 2 powr of_int (\<lfloor>log 2 x\<rfloor> + 1)"
    using floor_log_eq_powr_iff [of x 2 "\<lfloor>log 2 x\<rfloor>"] x by simp
  also have "\<dots> \<le> 2 powr of_int (binade x + 1)"
    using x by (intro powr_mono) (simp_all add: binade_def)
  finally show ?thesis .
qed

lemma binade_lower: "0 < x \<Longrightarrow> - 1022 < binade x \<Longrightarrow> 2 powr of_int (binade x) \<le> x"
proof -
  assume x: "0 < x" and b: "- 1022 < binade x"
  then have "binade x = \<lfloor>log 2 x\<rfloor>"
    by (simp add: binade_def max_def split: if_splits)
  then show ?thesis
    using floor_log_eq_powr_iff [of x 2 "\<lfloor>log 2 x\<rfloor>"] x by simp
qed

lemma ulp_scale: "(2::real) powr (a + 1) / 2 powr (a - 52) = 2 ^ 53"
proof -
  have "(2::real) powr (a + 1) / 2 powr (a - 52) = 2 powr ((a + 1) - (a - 52))"
    by (rule powr_diff [symmetric])
  also have "\<dots> = 2 powr 53"
    by simp
  finally show ?thesis
    by simp
qed

lemma ulp_scale': "(2::real) powr a / 2 powr (a - 52) = 2 ^ 52"
proof -
  have "(2::real) powr a / 2 powr (a - 52) = 2 powr (a - (a - 52))"
    by (rule powr_diff [symmetric])
  also have "\<dots> = 2 powr 52"
    by simp
  finally show ?thesis
    by simp
qed

lemma magnitude_upper:
  assumes "0 < x"
  shows "magnitude x \<le> 2 powr of_int (binade x + 1)"
proof -
  have "x / ulp x \<le> 2 powr of_int (binade x + 1) / ulp x"
    using binade_upper [OF assms] ulp_pos [of x] by (simp add: divide_right_mono)
  also have "\<dots> = of_int (2 ^ 53)"
    by (simp add: ulp_def ulp_scale)
  finally have "round_half_even (x / ulp x) \<le> round_half_even (of_int (2 ^ 53))"
    by (rule round_half_even_mono)
  then have "round_half_even (x / ulp x) \<le> 2 ^ 53"
    by (simp only: round_half_even_of_int)
  then have "of_int (round_half_even (x / ulp x)) \<le> (2 ^ 53 :: real)"
    by (metis of_int_le_iff of_int_numeral of_int_power)
  then have "magnitude x \<le> 2 ^ 53 * ulp x"
    using assms ulp_pos [of x] by (simp add: magnitude_def)
  also have "\<dots> = 2 powr of_int (binade x + 1)"
    using ulp_scale [of "of_int (binade x)"] by (simp add: ulp_def field_simps)
  finally show ?thesis .
qed

lemma magnitude_lower:
  assumes "0 < x" and "- 1022 < binade x"
  shows "2 powr of_int (binade x) \<le> magnitude x"
proof -
  have "of_int (2 ^ 52) = 2 powr of_int (binade x) / ulp x"
    by (simp add: ulp_def ulp_scale')
  also have "\<dots> \<le> x / ulp x"
    using binade_lower [OF assms] ulp_pos [of x] by (simp add: divide_right_mono)
  finally have "round_half_even (of_int (2 ^ 52)) \<le> round_half_even (x / ulp x)"
    by (rule round_half_even_mono)
  then have "2 ^ 52 \<le> round_half_even (x / ulp x)"
    by (simp only: round_half_even_of_int)
  then have "(2 ^ 52 :: real) \<le> of_int (round_half_even (x / ulp x))"
    by (metis of_int_le_iff of_int_numeral of_int_power)
  then have "2 ^ 52 * ulp x \<le> magnitude x"
    using assms ulp_pos [of x] by (simp add: magnitude_def)
  moreover have "2 ^ 52 * ulp x = 2 powr of_int (binade x)"
    using ulp_scale' [of "of_int (binade x)"] by (simp add: ulp_def field_simps)
  ultimately show ?thesis
    by simp
qed

lemma magnitude_nonneg: "0 \<le> magnitude x"
proof -
  have "round_half_even (of_int 0) \<le> round_half_even (\<bar>x\<bar> / ulp x)"
    using ulp_pos [of x] by (intro round_half_even_mono) simp
  then have "0 \<le> round_half_even (\<bar>x\<bar> / ulp x)"
    by (simp only: round_half_even_of_int)
  then show ?thesis
    using ulp_pos [of x] by (simp add: magnitude_def)
qed

lemma magnitude_mono:
  assumes "0 \<le> x" and "x \<le> y"
  shows "magnitude x \<le> magnitude y"
proof (cases "x = 0")
  case True
  then have "magnitude x = 0"
    by (simp add: magnitude_def round_half_even_def)
  then show ?thesis
    by (simp add: magnitude_nonneg)
next
  case False
  with assms have x: "0 < x" and y: "0 < y"
    by simp_all
  show ?thesis
  proof (cases "binade x = binade y")
    case True
    then have u: "ulp x = ulp y"
      by (simp add: ulp_def)
    have "x / ulp y \<le> y / ulp y"
      using assms ulp_pos [of y] by (simp add: divide_right_mono)
    then have "round_half_even (x / ulp y) \<le> round_half_even (y / ulp y)"
      by (rule round_half_even_mono)
    then show ?thesis
      using x y ulp_pos [of y] by (simp add: magnitude_def u)
  next
    case False
    with binade_mono [OF x assms(2)] have lt: "binade x + 1 \<le> binade y"
      by simp
    have "- 1022 \<le> binade x"
      by (simp add: binade_def)
    with lt have b: "- 1022 < binade y"
      by simp
    have "magnitude x \<le> 2 powr of_int (binade x + 1)"
      by (rule magnitude_upper [OF x])
    also have "\<dots> \<le> 2 powr of_int (binade y)"
      using lt by (intro powr_mono) simp_all
    also have "\<dots> \<le> magnitude y"
      by (rule magnitude_lower [OF y b])
    finally show ?thesis .
  qed
qed

lemma magnitude_minus: "magnitude (- x) = magnitude x"
  by (simp add: magnitude_def ulp_def binade_def)

lemma binary64_mono:
  assumes "x \<le> y"
  shows "binary64 x \<le> binary64 y"
proof -
  have nn: "0 \<le> min (magnitude z) js_infinity" for z
    using js_infinity_pos by (simp add: magnitude_nonneg)
  show ?thesis
  proof (cases "x < 0")
    case xneg: True
    show ?thesis
    proof (cases "y < 0")
      case True
      have "magnitude (- y) \<le> magnitude (- x)"
        using assms True by (intro magnitude_mono) simp_all
      then have "min (magnitude y) js_infinity \<le> min (magnitude x) js_infinity"
        by (simp add: magnitude_minus min_le_iff_disj)
      with xneg True show ?thesis
        by (simp add: binary64_def Let_def)
    next
      case False
      with xneg have "binary64 x = - min (magnitude x) js_infinity"
        and "binary64 y = min (magnitude y) js_infinity"
        by (simp_all add: binary64_def Let_def)
      with nn [of x] nn [of y] show ?thesis
        by linarith
    qed
  next
    case False
    then have "magnitude x \<le> magnitude y"
      using assms by (intro magnitude_mono) simp_all
    then have "min (magnitude x) js_infinity \<le> min (magnitude y) js_infinity"
      by (simp add: min_le_iff_disj)
    with False assms show ?thesis
      by (simp add: binary64_def Let_def)
  qed
qed


lemma binary64_normal:
  fixes k :: nat
  assumes "2 ^ k \<le> x" and "x < 2 ^ Suc k" and "k \<le> 52"
  shows "binary64 x = of_int (round_half_even (x * 2 ^ (52 - k))) / 2 ^ (52 - k)"
proof -
  have "(0::real) < 2 ^ k"
    by simp
  with assms(1) have x: "0 < x"
    by linarith
  have "\<lfloor>log 2 x\<rfloor> = int k"
    using assms(1,2) x by (simp add: floor_log_eq_powr_iff powr_realpow powr_add)
  then have b: "binade x = int k"
    using x by (simp add: binade_def)
  have "ulp x * 2 ^ (52 - k) = 2 powr (of_int (int k - 52) + real (52 - k))"
    by (simp add: ulp_def b powr_add powr_realpow)
  also have "\<dots> = 1"
    using assms(3) by (simp add: of_nat_diff)
  finally have u: "ulp x = 1 / 2 ^ (52 - k)"
    by (simp add: field_simps)
  have m: "magnitude x = of_int (round_half_even (x * 2 ^ (52 - k))) / 2 ^ (52 - k)"
    using x by (simp add: magnitude_def u)
  have "magnitude x \<le> 2 powr of_int (binade x + 1)"
    by (rule magnitude_upper [OF x])
  also have "\<dots> = 2 ^ Suc k"
    by (simp add: b powr_realpow powr_add)
  also have "\<dots> \<le> (2::real) ^ 1024"
    using assms(3) by (intro power_increasing) simp_all
  finally have "magnitude x \<le> js_infinity"
    by (simp only: js_infinity_def)
  with x m show ?thesis
    by (simp add: binary64_def Let_def)
qed

lemma binary64_300: "binary64 300 = 300"
  using binary64_normal [of 8 300] by (simp add: round_half_even_def)

lemma binary64_200: "binary64 200 = 200"
  using binary64_normal [of 7 200] by (simp add: round_half_even_def)

lemma binary64_150: "binary64 150 = 150"
  using binary64_normal [of 7 150] by (simp add: round_half_even_def)

lemma binary64_round_down: "binary64 (400 - (100 - 1 / 2 ^ 46)) = 300"
  using binary64_normal [of 8 "400 - (100 - 1 / 2 ^ 46)"] by (simp add: round_half_even_def)

lemma scroll_test_mono: "a - b \<le> c * 1.5 \<Longrightarrow> js_sub a b \<le> js_mul c 1.5"
  unfolding js_sub_def js_mul_def by (rule binary64_mono)

subsection \<open>Handlers and events\<close>

lemmas handler_defs =
  fetchTunes_def fetchTunes_settle_def try_block_def catch_block_def finally_block_def
  handleScroll_def handleSelect_def handleRemove_def error_visible_def
  debounce_effect_def fetch_effect_def commit_def debounce_fire_def

lemma run_Nil: "run pr [] st = st"
  by (simp add: run_def)

lemma run_Cons: "run pr (ev # evs) st = run pr evs (step pr ev st)"
  by (simp add: run_def)

lemma run_append: "run pr (evs @ evs') st = run pr evs' (run pr evs st)"
  by (simp add: run_def)

lemma mount_consistent: "consistent (mount store)"
  by (simp add: consistent_def mount_def initial_def fetchTunes_def)

lemma step_Keystroke: "step pr (Keystroke s) st = commit st (st\<lparr> searchQuery := s \<rparr>)"
  and step_TimerFire: "step pr TimerFire st =
         (case timer st of None \<Rightarrow> st | Some q \<Rightarrow> commit st (debounce_fire q st))"
  and step_Scroll: "step pr (Scroll e) st = commit st (handleScroll e st)"
  and step_Settle: "step pr (Settle outcome) st =
         (case inflight st of
            [] \<Rightarrow> st
          | req # rest \<Rightarrow>
              (case fetchTunes_settle req outcome (st\<lparr> inflight := rest \<rparr>) of
                 Inl err \<Rightarrow> st
               | Inr st' \<Rightarrow> commit st st'))"
  and step_Retry: "step pr Retry st = (if error_visible st then commit st (fetchTunes st) else st)"
  and step_Select: "step pr (Select t) st = commit st (handleSelect pr t st)"
  and step_Remove: "step pr (Remove index) st = commit st (handleRemove pr index st)"
  and step_OpenChange: "step pr (OpenChange b) st = commit st (st\<lparr> isOpen := b \<rparr>)"
  by (simp_all add: step_def)

lemmas step_simps =
  step_Keystroke step_TimerFire step_Scroll step_Settle step_Retry step_Select step_Remove
  step_OpenChange

lemma step_consistent: "consistent st \<Longrightarrow> consistent (step pr ev st)"
proof (cases ev)
  case (Keystroke s)
  assume "consistent st"
  then show ?thesis
    by (auto simp: Keystroke step_Keystroke consistent_def handler_defs split: list.splits option.splits)
next
  case TimerFire
  assume "consistent st"
  then show ?thesis
    by (auto simp: TimerFire step_TimerFire consistent_def handler_defs split: list.splits option.splits)
next
  case (Scroll e)
  assume "consistent st"
  then show ?thesis
    by (auto simp: Scroll step_Scroll consistent_def handler_defs split: list.splits option.splits)
next
  case (Settle outcome)
  assume "consistent st"
  then show ?thesis
    by (cases outcome)
       (auto simp: Settle step_Settle consistent_def handler_defs split: list.splits option.splits)
next
  case Retry
  assume "consistent st"
  then show ?thesis
    by (auto simp: Retry step_Retry consistent_def handler_defs split: list.splits option.splits)
next
  case (Select t)
  assume "consistent st"
  then show ?thesis
    by (auto simp: Select step_Select consistent_def handler_defs split: list.splits option.splits)
next
  case (Remove index)
  assume "consistent st"
  then show ?thesis
    by (auto simp: Remove step_Remove consistent_def handler_defs split: list.splits option.splits)
next
  case (OpenChange b)
  assume "consistent st"
  then show ?thesis
    by (auto simp: OpenChange step_OpenChange consistent_def handler_defs split: list.splits option.splits)
qed

lemma run_consistent: "consistent st \<Longrightarrow> consistent (run pr evs st)"
  by (induction evs arbitrary: st) (simp_all add: run_Nil run_Cons step_consistent)

lemma reachable_consistent: "consistent (run pr evs (mount store))"
  by (rule run_consistent [OF mount_consistent])

lemma settle_success:
  "fetchTunes_settle req (Inr r) st =
     Inr (st\<lparr> tunes := (if fst req = 1 then r else tunes st @ r),
              hasMore := (length r = ITEMS_PER_PAGE), loading := False \<rparr>)"
proof -
  have "(0 < length r \<and> length r = ITEMS_PER_PAGE) = (length r = ITEMS_PER_PAGE)"
    by (auto simp: ITEMS_PER_PAGE_def)
  then show ?thesis
    by (simp add: fetchTunes_settle_def try_block_def catch_block_def finally_block_def)
qed

lemma settle_failure:
  "fetchTunes_settle req (Inl err) st =
     Inr (st\<lparr> error := Some ''Failed to load tunes. Please try again.'',
              console := console st @ [err], loading := False \<rparr>)"
  by (simp add: fetchTunes_settle_def try_block_def catch_block_def finally_block_def)

lemma step_settle_success:
  "inflight st = req # rest \<Longrightarrow>
   step pr (Settle (Inr r)) st =
     st\<lparr> inflight := rest, tunes := (if fst req = 1 then r else tunes st @ r),
         hasMore := (length r = ITEMS_PER_PAGE), loading := False \<rparr>"
  by (simp add: step_Settle settle_success commit_def fetch_effect_def debounce_effect_def)

lemma step_settle_failure:
  "inflight st = req # rest \<Longrightarrow>
   step pr (Settle (Inl err)) st =
     st\<lparr> inflight := rest, error := Some ''Failed to load tunes. Please try again.'',
         console := console st @ [err], loading := False \<rparr>"
  by (simp add: step_Settle settle_failure commit_def fetch_effect_def debounce_effect_def)

lemma consistent_settle_tunes:
  assumes "consistent st" and "inflight st \<noteq> []"
  shows "tunes (step pr (Settle (Inr r)) st) = (if page st = 1 then r else tunes st @ r)"
proof -
  from assms(2) obtain req rest where req: "inflight st = req # rest"
    by (cases "inflight st") auto
  with assms(1) have "fst req = page st \<or> (page st = 1 \<and> tunes st = [])"
    by (simp add: consistent_def)
  then show ?thesis
    by (auto simp: step_settle_success [OF req])
qed

lemmas eval_defs =
  step_simps handler_defs js_sub_def js_mul_def run_Nil run_Cons mount_def initial_def
  ITEMS_PER_PAGE_def

lemma filter_index_above: "i < n \<Longrightarrow> filter_index (\<lambda>_ k. k \<noteq> i) n xs = xs"
  by (induction xs arbitrary: n) auto

lemma filter_index_remove:
  "filter_index (\<lambda>_ k. k \<noteq> n + i) n xs = take i xs @ drop (Suc i) xs"
proof (induction xs arbitrary: n i)
  case Nil
  then show ?case by simp
next
  case (Cons x xs)
  show ?case
  proof (cases i)
    case 0
    then show ?thesis
      by (simp add: filter_index_above)
  next
    case (Suc j)
    have "filter_index (\<lambda>_ k. k \<noteq> Suc n + j) (Suc n) xs = take j xs @ drop (Suc j) xs"
      by (rule Cons.IH)
    with Suc show ?thesis
      by simp
  qed
qed

lemma commit_same:
  "page st' = page st \<Longrightarrow> debouncedSearch st' = debouncedSearch st \<Longrightarrow>
   searchQuery st' = searchQuery st \<Longrightarrow> commit st st' = st'"
  by (simp add: commit_def fetch_effect_def debounce_effect_def)

section \<open>The claims\<close>

text \<open>
  C1.  The run in which the response for page 1 brings twelve items, the timeout armed at
  mounting expires, the user scrolls to the threshold and the response for page 2 brings
  one item.  The two fetches succeed, for page 1 and then for page 2.  The expiry empties
  the result list and issues no request; the second response is appended to the empty
  list, which ends with one item where the two pages returned thirteen.
\<close>

theorem paging_after_mount_timeout:
  "inflight (mount []) = [(1, ITEMS_PER_PAGE, [])]
   \<and> tunes (run no_callbacks [Settle (Inr (replicate 12 tune_abc))] (mount []))
       = replicate 12 tune_abc
   \<and> tunes (run no_callbacks [Settle (Inr (replicate 12 tune_abc)), TimerFire] (mount [])) = []
   \<and> inflight (run no_callbacks [Settle (Inr (replicate 12 tune_abc)), TimerFire] (mount [])) = []
   \<and> inflight (run no_callbacks
        [Settle (Inr (replicate 12 tune_abc)), TimerFire, Scroll at_threshold] (mount []))
       = [(2, ITEMS_PER_PAGE, [])]
   \<and> tunes (run no_callbacks
        [Settle (Inr (replicate 12 tune_abc)), TimerFire, Scroll at_threshold,
         Settle (Inr [tune_abc])] (mount []))
       = [tune_abc]
   \<and> sum_list (map length [replicate 12 tune_abc, [tune_abc]]) = 13"
  by (simp add: eval_defs at_threshold_def)

text \<open>
  C2.  After a successful fetch the has-more flag is set exactly when the response holds
  \<open>ITEMS_PER_PAGE\<close> = 12 items; a shorter response, the empty one included, clears it.
  While the flag is clear, the scroll handler leaves the page counter as it is.
\<close>

theorem has_more_iff_full_page:
  "(\<exists>st'. fetchTunes_settle req (Inr r) st = Inr st' \<and>
       (hasMore st' \<longleftrightarrow> length r = ITEMS_PER_PAGE))
   \<and> ITEMS_PER_PAGE = 12
   \<and> (length r < ITEMS_PER_PAGE \<longrightarrow>
        (\<exists>st'. fetchTunes_settle req (Inr r) st = Inr st' \<and> \<not> hasMore st'))
   \<and> (inflight st \<noteq> [] \<longrightarrow>
        (hasMore (step pr (Settle (Inr r)) st) \<longleftrightarrow> length r = ITEMS_PER_PAGE))
   \<and> (\<not> hasMore st \<longrightarrow>
        page (handleScroll e st) = page st \<and> page (step pr (Scroll e) st) = page st)"
proof -
  have a: "\<exists>st'. fetchTunes_settle req (Inr r) st = Inr st' \<and>
       (hasMore st' \<longleftrightarrow> length r = ITEMS_PER_PAGE)"
    by (simp add: settle_success)
  have b: "length r < ITEMS_PER_PAGE \<longrightarrow>
        (\<exists>st'. fetchTunes_settle req (Inr r) st = Inr st' \<and> \<not> hasMore st')"
    by (simp add: settle_success)
  have c: "inflight st \<noteq> [] \<longrightarrow>
        (hasMore (step pr (Settle (Inr r)) st) \<longleftrightarrow> length r = ITEMS_PER_PAGE)"
    by (cases "inflight st") (simp_all add: step_settle_success)
  have d: "\<not> hasMore st \<longrightarrow>
        page (handleScroll e st) = page st \<and> page (step pr (Scroll e) st) = page st"
    by (simp add: step_Scroll handleScroll_def commit_def fetch_effect_def debounce_effect_def)
  from a b c d show ?thesis
    by (simp add: ITEMS_PER_PAGE_def)
qed

theorem has_more_iff_full_page_witness:
  "hasMore (step no_callbacks (Settle (Inr (replicate 12 tune_abc))) (mount []))
   \<and> \<not> hasMore (step no_callbacks (Settle (Inr [tune_abc])) (mount []))
   \<and> \<not> hasMore (step no_callbacks (Settle (Inr [])) (mount []))
   \<and> page (step no_callbacks (Scroll at_threshold)
        (step no_callbacks (Settle (Inr [])) (mount []))) = 1"
proof -
  have m: "inflight (mount []) \<noteq> []"
    by (simp add: mount_def initial_def fetchTunes_def)
  have p: "page (step no_callbacks (Settle (Inr [])) (mount [])) = 1"
    by (simp add: mount_def initial_def step_Settle settle_success fetchTunes_def commit_def
        fetch_effect_def debounce_effect_def)
  note a = has_more_iff_full_page [where st = "mount []" and pr = no_callbacks
      and r = "replicate 12 tune_abc" and req = "(1, 12, [])" and e = at_threshold]
  note b = has_more_iff_full_page [where st = "mount []" and pr = no_callbacks
      and r = "[tune_abc]" and req = "(1, 12, [])" and e = at_threshold]
  note c = has_more_iff_full_page [where st = "mount []" and pr = no_callbacks
      and r = "[]" and req = "(1, 12, [])" and e = at_threshold]
  have h1: "hasMore (step no_callbacks (Settle (Inr (replicate 12 tune_abc))) (mount []))"
    using a m by (simp add: ITEMS_PER_PAGE_def)
  have h2: "\<not> hasMore (step no_callbacks (Settle (Inr [tune_abc])) (mount []))"
    using b m by (simp add: ITEMS_PER_PAGE_def)
  have h3: "\<not> hasMore (step no_callbacks (Settle (Inr [])) (mount []))"
    using c m by (simp add: ITEMS_PER_PAGE_def)
  have h4: "page (step no_callbacks (Scroll at_threshold)
        (step no_callbacks (Settle (Inr [])) (mount []))) = 1"
    using has_more_iff_full_page [where st = "step no_callbacks (Settle (Inr [])) (mount [])"
      and pr = no_callbacks and e = at_threshold and r = "[]" and req = "(1, 12, [])"] h3 p
    by simp
  from h1 h2 h3 h4 show ?thesis
    by simp
qed

text \<open>
  C3.  The run in which the user types \<^verbatim>\<open>a\<close> while the request issued at mounting is still
  outstanding and the timeout expires before the response arrives.  The raw term is \<^verbatim>\<open>a\<close>
  at once; at the expiry the debounced term becomes \<^verbatim>\<open>a\<close>, the page counter 1 and the result
  list empty, but the call of \<^verbatim>\<open>fetchTunes\<close> made by the effect returns at its guard: the only
  outstanding request is still the one for the empty term.  When its response arrives it is
  put into the emptied list and no request is outstanding, so the term \<^verbatim>\<open>a\<close> is never asked
  for.  When the response arrives before the user types, the same expiry does issue the
  request for page 1 and the term \<^verbatim>\<open>a\<close>.
\<close>

theorem debounce_fetch_dropped:
  "searchQuery (run no_callbacks [OpenChange True, Keystroke ''a''] (mount [])) = ''a''
   \<and> debouncedSearch (run no_callbacks [OpenChange True, Keystroke ''a'', TimerFire] (mount []))
       = ''a''
   \<and> page (run no_callbacks [OpenChange True, Keystroke ''a'', TimerFire] (mount [])) = 1
   \<and> tunes (run no_callbacks [OpenChange True, Keystroke ''a'', TimerFire] (mount [])) = []
   \<and> inflight (run no_callbacks [OpenChange True, Keystroke ''a'', TimerFire] (mount []))
       = [(1, ITEMS_PER_PAGE, [])]
   \<and> tunes (run no_callbacks
        [OpenChange True, Keystroke ''a'', TimerFire, Settle (Inr [tune_abc])] (mount []))
       = [tune_abc]
   \<and> inflight (run no_callbacks
        [OpenChange True, Keystroke ''a'', TimerFire, Settle (Inr [tune_abc])] (mount [])) = []
   \<and> inflight (run no_callbacks
        [OpenChange True, Settle (Inr [tune_abc]), Keystroke ''a'', TimerFire] (mount []))
       = [(1, ITEMS_PER_PAGE, ''a'')]"
  by (simp add: eval_defs)




text \<open>
  C5.  Selecting an item appends the text \<^verbatim>\<open><lora:\<close>, its identifier, \<^verbatim>\<open>:1>\<close> to the end of the
  selection list (for the identifier \<^verbatim>\<open>abc\<close>, the text \<^verbatim>\<open><lora:abc:1>\<close>), keeps the earlier
  entries where they were, calls the selection callback with the item when one was
  passed, and closes the dialog.
\<close>

theorem select_appends:
  "loraTextList (handleSelect pr t st) = loraTextList st @ [''<lora:'' @ tune_id t @ '':1>'']
   \<and> (tune_id t = ''abc'' \<longrightarrow>
        loraTextList (handleSelect pr t st) = loraTextList st @ [''<lora:abc:1>''])
   \<and> take (length (loraTextList st)) (loraTextList (handleSelect pr t st)) = loraTextList st
   \<and> length (loraTextList (handleSelect pr t st)) = Suc (length (loraTextList st))
   \<and> (has_onSelect pr \<longrightarrow> onSelect_calls (handleSelect pr t st) = onSelect_calls st @ [t])
   \<and> (\<not> has_onSelect pr \<longrightarrow> onSelect_calls (handleSelect pr t st) = onSelect_calls st)
   \<and> \<not> isOpen (handleSelect pr t st)
   \<and> step pr (Select t) st = handleSelect pr t st"
proof -
  have "step pr (Select t) st = handleSelect pr t st"
    unfolding step_Select by (rule commit_same) (simp_all add: handleSelect_def)
  then show ?thesis
    by (simp add: handleSelect_def lora_text_def)
qed

theorem select_appends_witness:
  "loraTextList (handleSelect both_callbacks tune_abc (initial [''<lora:x:1>'']))
     = [''<lora:x:1>'', ''<lora:abc:1>'']
   \<and> onSelect_calls (handleSelect both_callbacks tune_abc (initial [''<lora:x:1>''])) = [tune_abc]
   \<and> onSelect_calls (handleSelect no_callbacks tune_abc (initial [''<lora:x:1>''])) = []
   \<and> \<not> isOpen (handleSelect both_callbacks tune_abc ((initial [''<lora:x:1>''])\<lparr> isOpen := True \<rparr>))"
proof -
  note a = select_appends [where pr = both_callbacks and t = tune_abc
      and st = "initial [''<lora:x:1>'']"]
  note b = select_appends [where pr = no_callbacks and t = tune_abc
      and st = "initial [''<lora:x:1>'']"]
  note c = select_appends [where pr = both_callbacks and t = tune_abc
      and st = "(initial [''<lora:x:1>''])\<lparr> isOpen := True \<rparr>"]
  have w1: "loraTextList (handleSelect both_callbacks tune_abc (initial [''<lora:x:1>'']))
     = [''<lora:x:1>'', ''<lora:abc:1>'']"
    using a by (simp add: tune_abc_def initial_def)
  have w2: "onSelect_calls (handleSelect both_callbacks tune_abc (initial [''<lora:x:1>'']))
     = [tune_abc]"
    using a by (simp add: both_callbacks_def initial_def)
  have w3: "onSelect_calls (handleSelect no_callbacks tune_abc (initial [''<lora:x:1>''])) = []"
    using b by (simp add: no_callbacks_def initial_def)
  have w4: "\<not> isOpen (handleSelect both_callbacks tune_abc
      ((initial [''<lora:x:1>''])\<lparr> isOpen := True \<rparr>))"
    using c by simp
  from w1 w2 w3 w4 show ?thesis
    by simp
qed

text \<open>
  C6.  Removing the entry at a valid position \<open>i\<close> of the selection list leaves the entries
  before \<open>i\<close> followed by the entries after \<open>i\<close>: the list is one shorter, the entries below
  \<open>i\<close> keep their positions and each later entry moves down by one.  Removing position 0 of
  \<^verbatim>\<open>["<lora:a:1>", "<lora:b:1>"]\<close> leaves \<^verbatim>\<open>["<lora:b:1>"]\<close>.  The removal callback, when one was
  passed, is called with the removed entry.
\<close>

theorem remove_at_index:
  assumes "i < length (loraTextList st)"
  shows "loraTextList (handleRemove pr i st)
           = take i (loraTextList st) @ drop (Suc i) (loraTextList st)
       \<and> length (loraTextList (handleRemove pr i st)) = length (loraTextList st) - 1
       \<and> (\<forall>j<i. loraTextList (handleRemove pr i st) ! j = loraTextList st ! j)
       \<and> (\<forall>j. i \<le> j \<and> j < length (loraTextList st) - 1 \<longrightarrow>
            loraTextList (handleRemove pr i st) ! j = loraTextList st ! Suc j)
       \<and> (has_onRemove pr \<longrightarrow>
            onRemove_calls (handleRemove pr i st) = onRemove_calls st @ [Some (loraTextList st ! i)])
       \<and> (\<not> has_onRemove pr \<longrightarrow> onRemove_calls (handleRemove pr i st) = onRemove_calls st)
       \<and> step pr (Remove i) st = handleRemove pr i st
       \<and> loraTextList (handleRemove pr 0 (st\<lparr> loraTextList := [''<lora:a:1>'', ''<lora:b:1>''] \<rparr>))
           = [''<lora:b:1>'']"
proof -
  let ?xs = "loraTextList st"
  let ?ys = "loraTextList (handleRemove pr i st)"
  have ys: "?ys = take i ?xs @ drop (Suc i) ?xs"
    using filter_index_remove [of 0 i ?xs] by (simp add: handleRemove_def)
  have len: "length ?ys = length ?xs - 1"
    using assms by (simp add: ys)
  have low: "\<forall>j<i. ?ys ! j = ?xs ! j"
    using assms by (simp add: ys nth_append)
  have high: "\<forall>j. i \<le> j \<and> j < length ?xs - 1 \<longrightarrow> ?ys ! j = ?xs ! Suc j"
    using assms by (auto simp: ys nth_append)
  have cb: "has_onRemove pr \<longrightarrow> onRemove_calls (handleRemove pr i st) = onRemove_calls st @ [Some (?xs ! i)]"
    using assms by (simp add: handleRemove_def js_index_def)
  have ncb: "\<not> has_onRemove pr \<longrightarrow> onRemove_calls (handleRemove pr i st) = onRemove_calls st"
    by (simp add: handleRemove_def)
  have st: "step pr (Remove i) st = handleRemove pr i st"
    unfolding step_Remove by (rule commit_same) (simp_all add: handleRemove_def)
  have ex: "loraTextList (handleRemove pr 0 (st\<lparr> loraTextList := [''<lora:a:1>'', ''<lora:b:1>''] \<rparr>))
           = [''<lora:b:1>'']"
    by (simp add: handleRemove_def)
  from ys len low high cb ncb st ex show ?thesis
    by blast
qed

theorem remove_at_index_witness:
  "loraTextList (handleRemove both_callbacks 1 (initial [''<lora:a:1>'', ''<lora:b:1>'', ''<lora:c:1>'']))
     = [''<lora:a:1>'', ''<lora:c:1>'']
   \<and> onRemove_calls
        (handleRemove both_callbacks 1 (initial [''<lora:a:1>'', ''<lora:b:1>'', ''<lora:c:1>'']))
     = [Some ''<lora:b:1>'']
   \<and> loraTextList (handleRemove both_callbacks 0 (initial [''<lora:a:1>'', ''<lora:b:1>'']))
     = [''<lora:b:1>'']"
proof -
  have h1: "(1::nat) < length (loraTextList (initial [''<lora:a:1>'', ''<lora:b:1>'', ''<lora:c:1>'']))"
    by (simp add: initial_def)
  have h2: "(0::nat) < length (loraTextList (initial [''<lora:a:1>'', ''<lora:b:1>'']))"
    by (simp add: initial_def)
  note a = remove_at_index [OF h1, where pr = both_callbacks]
  note b = remove_at_index [OF h2, where pr = both_callbacks]
  have w1: "loraTextList (handleRemove both_callbacks 1
        (initial [''<lora:a:1>'', ''<lora:b:1>'', ''<lora:c:1>'']))
     = [''<lora:a:1>'', ''<lora:c:1>'']"
    using a by (simp add: initial_def)
  have w2: "onRemove_calls (handleRemove both_callbacks 1
        (initial [''<lora:a:1>'', ''<lora:b:1>'', ''<lora:c:1>'']))
     = [Some ''<lora:b:1>'']"
    using a by (simp add: initial_def both_callbacks_def)
  have w3: "loraTextList (handleRemove both_callbacks 0 (initial [''<lora:a:1>'', ''<lora:b:1>'']))
     = [''<lora:b:1>'']"
    using b by (simp add: initial_def)
  from w1 w2 w3 show ?thesis
    by simp
qed

text \<open>
  C7.  While the loading flag is set, \<^verbatim>\<open>fetchTunes\<close> returns the state as it is: it issues no
  request and changes nothing.  In every state reached from mounting, the flag is set
  exactly while a request is outstanding, and at most one request is outstanding.
\<close>

theorem single_flight:
  "(loading st \<longrightarrow> fetchTunes st = st)
   \<and> length (inflight (run pr evs (mount store))) \<le> 1
   \<and> (loading (run pr evs (mount store)) \<longleftrightarrow> inflight (run pr evs (mount store)) \<noteq> [])"
proof -
  have "consistent (run pr evs (mount store))"
    by (rule reachable_consistent)
  then have "length (inflight (run pr evs (mount store))) \<le> 1
      \<and> (loading (run pr evs (mount store)) \<longleftrightarrow> inflight (run pr evs (mount store)) \<noteq> [])"
    by (cases "inflight (run pr evs (mount store))") (simp_all add: consistent_def)
  then show ?thesis
    by (simp add: fetchTunes_def)
qed

theorem single_flight_witness:
  "loading (mount []) \<and> fetchTunes (mount []) = mount []
   \<and> length (inflight (run no_callbacks [Keystroke ''a'', TimerFire, Scroll at_threshold, Retry]
        (mount []))) \<le> 1"
proof -
  have m: "loading (mount [])"
    by (simp add: mount_def initial_def fetchTunes_def)
  note a = single_flight [where st = "mount []" and pr = no_callbacks
      and evs = "[Keystroke ''a'', TimerFire, Scroll at_threshold, Retry]" and store = "[]"]
  have w1: "fetchTunes (mount []) = mount []"
    using a m by simp
  have w2: "length (inflight (run no_callbacks
        [Keystroke ''a'', TimerFire, Scroll at_threshold, Retry] (mount []))) \<le> 1"
    using a by simp
  from m w1 w2 show ?thesis
    by simp
qed

text \<open>
  C8 (as stated, refuted).  The handler compares with \<^verbatim>\<open><=\<close>: at the scroll position where
  \<^verbatim>\<open>scrollHeight - scrollTop\<close> is exactly 1.5 times \<^verbatim>\<open>clientHeight\<close> (400 - 100 against 200 * 1.5),
  the distance has not fallen below the bound, yet the page counter goes from 3 to 4.
  Read with the distance still to scroll, \<^verbatim>\<open>scrollHeight - scrollTop - clientHeight\<close>, the
  claim fails as well: at 200 - 0 against 100 that distance, 100, is below 150 and the
  counter stays.  The handler also compares the computed numbers: with \<^verbatim>\<open>scrollTop\<close> one
  binary64 step below 100, the exact difference exceeds 300 but is rounded to 300, and the
  counter is incremented.
\<close>

theorem scroll_threshold_counterexample:
  "hasMore ((initial [])\<lparr> page := 3 \<rparr>) \<and> \<not> loading ((initial [])\<lparr> page := 3 \<rparr>)
   \<and> \<not> scrollHeight at_threshold - scrollTop at_threshold < clientHeight at_threshold * 1.5
   \<and> page (handleScroll at_threshold ((initial [])\<lparr> page := 3 \<rparr>)) = 4
   \<and> scrollHeight mid_scroll - scrollTop mid_scroll - clientHeight mid_scroll
        < clientHeight mid_scroll * 1.5
   \<and> page (handleScroll mid_scroll ((initial [])\<lparr> page := 3 \<rparr>)) = 3
   \<and> \<not> scrollHeight just_above - scrollTop just_above \<le> clientHeight just_above * 1.5
   \<and> page (handleScroll just_above ((initial [])\<lparr> page := 3 \<rparr>)) = 4"
  by (simp add: initial_def at_threshold_def mid_scroll_def just_above_def handleScroll_def
      js_sub_def js_mul_def binary64_300 binary64_200 binary64_150
      binary64_round_down [simplified])

text \<open>
  C8 (amended).  A scroll event increments the page counter by one exactly when the
  difference \<^verbatim>\<open>scrollHeight - scrollTop\<close>, as computed on binary64 numbers (the exact
  difference rounded to the nearest), is at most the computed product \<^verbatim>\<open>clientHeight * 1.5\<close>,
  the has-more flag is set and no fetch is in flight; otherwise the counter is unchanged.
  In particular the counter is incremented whenever the exact difference is at most 1.5
  times \<^verbatim>\<open>clientHeight\<close> (flag set, no fetch in flight), and where the difference and the
  product are computed without rounding the test is the exact comparison.
\<close>

theorem scroll_increments_page:
  "page (handleScroll e st) =
     (if binary64 (scrollHeight e - scrollTop e) \<le> binary64 (clientHeight e * 1.5) \<and>
         hasMore st \<and> \<not> loading st
      then page st + 1 else page st)
   \<and> (scrollHeight e - scrollTop e \<le> clientHeight e * 1.5 \<and> hasMore st \<and> \<not> loading st \<longrightarrow>
        page (handleScroll e st) = page st + 1)
   \<and> (binary64 (scrollHeight e - scrollTop e) = scrollHeight e - scrollTop e \<and>
      binary64 (clientHeight e * 1.5) = clientHeight e * 1.5 \<longrightarrow>
        page (handleScroll e st) =
          (if scrollHeight e - scrollTop e \<le> clientHeight e * 1.5 \<and> hasMore st \<and> \<not> loading st
           then page st + 1 else page st))
   \<and> page (step pr (Scroll e) st) = page (handleScroll e st)"
proof -
  have a: "page (handleScroll e st) =
     (if binary64 (scrollHeight e - scrollTop e) \<le> binary64 (clientHeight e * 1.5) \<and>
         hasMore st \<and> \<not> loading st
      then page st + 1 else page st)"
    by (simp add: handleScroll_def js_sub_def js_mul_def)
  have b: "scrollHeight e - scrollTop e \<le> clientHeight e * 1.5 \<and> hasMore st \<and> \<not> loading st \<longrightarrow>
        page (handleScroll e st) = page st + 1"
    using binary64_mono [of "scrollHeight e - scrollTop e" "clientHeight e * 1.5"]
    by (simp add: a)
  have c: "binary64 (scrollHeight e - scrollTop e) = scrollHeight e - scrollTop e \<and>
      binary64 (clientHeight e * 1.5) = clientHeight e * 1.5 \<longrightarrow>
        page (handleScroll e st) =
          (if scrollHeight e - scrollTop e \<le> clientHeight e * 1.5 \<and> hasMore st \<and> \<not> loading st
           then page st + 1 else page st)"
    by (simp add: a)
  have d: "page (step pr (Scroll e) st) = page (handleScroll e st)"
    by (simp add: handleScroll_def step_Scroll commit_def fetch_effect_def debounce_effect_def
        fetchTunes_def)
  from a b c d show ?thesis
    by blast
qed

theorem scroll_increments_page_witness:
  "page (handleScroll at_threshold ((initial [])\<lparr> page := 3 \<rparr>)) = 4
   \<and> page (handleScroll just_above ((initial [])\<lparr> page := 3 \<rparr>)) = 4
   \<and> page (handleScroll mid_scroll ((initial [])\<lparr> page := 3 \<rparr>)) = 3
   \<and> page (handleScroll at_threshold (mount [])) = 1"
proof -
  have w1: "page (handleScroll at_threshold ((initial [])\<lparr> page := 3 \<rparr>)) = 4"
    using scroll_increments_page [where e = at_threshold and st = "(initial [])\<lparr> page := 3 \<rparr>"
        and pr = no_callbacks]
    by (simp add: at_threshold_def initial_def)
  have w2: "page (handleScroll just_above ((initial [])\<lparr> page := 3 \<rparr>)) = 4"
    using scroll_increments_page [where e = just_above and st = "(initial [])\<lparr> page := 3 \<rparr>"
        and pr = no_callbacks]
    by (simp add: just_above_def initial_def binary64_300 binary64_round_down [simplified])
  have w3: "page (handleScroll mid_scroll ((initial [])\<lparr> page := 3 \<rparr>)) = 3"
    using scroll_increments_page [where e = mid_scroll and st = "(initial [])\<lparr> page := 3 \<rparr>"
        and pr = no_callbacks]
    by (simp add: mid_scroll_def initial_def binary64_200 binary64_150)
  have w4: "page (handleScroll at_threshold (mount [])) = 1"
    using scroll_increments_page [where e = at_threshold and st = "mount []"
        and pr = no_callbacks]
    by (simp add: at_threshold_def mount_def initial_def fetchTunes_def)
  from w1 w2 w3 w4 show ?thesis
    by simp
qed

text \<open>
  C9.  A failing fetch leaves the page counter, the has-more flag, the raw and the
  debounced search term (and the result list) as they were.  A has-more flag that was set
  stays set, and since the loading flag is cleared, a scroll within the threshold right
  after the failure increments the page counter.
\<close>

theorem failure_frame:
  "(\<exists>st'. fetchTunes_settle req (Inl err) st = Inr st' \<and>
       tunes st' = tunes st \<and> page st' = page st \<and> hasMore st' = hasMore st \<and>
       searchQuery st' = searchQuery st \<and> debouncedSearch st' = debouncedSearch st)
   \<and> (inflight st \<noteq> [] \<longrightarrow>
        tunes (step pr (Settle (Inl err)) st) = tunes st \<and>
        page (step pr (Settle (Inl err)) st) = page st \<and>
        hasMore (step pr (Settle (Inl err)) st) = hasMore st \<and>
        searchQuery (step pr (Settle (Inl err)) st) = searchQuery st \<and>
        debouncedSearch (step pr (Settle (Inl err)) st) = debouncedSearch st)
   \<and> (inflight st \<noteq> [] \<and> hasMore st \<and>
      scrollHeight e - scrollTop e \<le> clientHeight e * 1.5 \<longrightarrow>
        page (step pr (Scroll e) (step pr (Settle (Inl err)) st)) = page st + 1)"
proof -
  have a: "\<exists>st'. fetchTunes_settle req (Inl err) st = Inr st' \<and>
       tunes st' = tunes st \<and> page st' = page st \<and> hasMore st' = hasMore st \<and>
       searchQuery st' = searchQuery st \<and> debouncedSearch st' = debouncedSearch st"
    by (simp add: settle_failure)
  have b: "inflight st \<noteq> [] \<longrightarrow>
        tunes (step pr (Settle (Inl err)) st) = tunes st \<and>
        page (step pr (Settle (Inl err)) st) = page st \<and>
        hasMore (step pr (Settle (Inl err)) st) = hasMore st \<and>
        searchQuery (step pr (Settle (Inl err)) st) = searchQuery st \<and>
        debouncedSearch (step pr (Settle (Inl err)) st) = debouncedSearch st"
    by (cases "inflight st") (simp_all add: step_settle_failure)
  have c: "inflight st \<noteq> [] \<and> hasMore st \<and>
      scrollHeight e - scrollTop e \<le> clientHeight e * 1.5 \<longrightarrow>
        page (step pr (Scroll e) (step pr (Settle (Inl err)) st)) = page st + 1"
  proof (intro impI, elim conjE)
    assume i: "inflight st \<noteq> []" and h: "hasMore st"
      and t: "scrollHeight e - scrollTop e \<le> clientHeight e * 1.5"
    from i obtain req' rest where r: "inflight st = req' # rest"
      by (cases "inflight st") auto
    have "js_sub (scrollHeight e) (scrollTop e) \<le> js_mul (clientHeight e) 1.5"
      by (rule scroll_test_mono [OF t])
    with h show "page (step pr (Scroll e) (step pr (Settle (Inl err)) st)) = page st + 1"
      unfolding step_settle_failure [OF r]
      by (simp add: step_Scroll handleScroll_def commit_def fetch_effect_def
          debounce_effect_def fetchTunes_def)
  qed
  from a b c show ?thesis
    by blast
qed

theorem failure_frame_witness:
  "inflight (mount []) \<noteq> [] \<and> hasMore (mount [])
   \<and> page (step no_callbacks (Settle (Inl ''timeout'')) (mount [])) = 1
   \<and> hasMore (step no_callbacks (Settle (Inl ''timeout'')) (mount []))
   \<and> searchQuery (step no_callbacks (Settle (Inl ''timeout'')) (mount [])) = []
   \<and> debouncedSearch (step no_callbacks (Settle (Inl ''timeout'')) (mount [])) = []
   \<and> page (step no_callbacks (Scroll at_threshold)
        (step no_callbacks (Settle (Inl ''timeout'')) (mount []))) = 2"
proof -
  have m: "inflight (mount []) \<noteq> [] \<and> hasMore (mount []) \<and> page (mount []) = 1
      \<and> searchQuery (mount []) = [] \<and> debouncedSearch (mount []) = []"
    by (simp add: mount_def initial_def fetchTunes_def)
  have e: "scrollHeight at_threshold - scrollTop at_threshold \<le> clientHeight at_threshold * 1.5"
    by (simp add: at_threshold_def)
  note a = failure_frame [where st = "mount []" and pr = no_callbacks and err = "''timeout''"
      and e = at_threshold and req = "(1, ITEMS_PER_PAGE, [])"]
  have w1: "page (step no_callbacks (Settle (Inl ''timeout'')) (mount [])) = 1
   \<and> hasMore (step no_callbacks (Settle (Inl ''timeout'')) (mount []))
   \<and> searchQuery (step no_callbacks (Settle (Inl ''timeout'')) (mount [])) = []
   \<and> debouncedSearch (step no_callbacks (Settle (Inl ''timeout'')) (mount [])) = []"
    using a m by simp
  have w2: "page (step no_callbacks (Scroll at_threshold)
        (step no_callbacks (Settle (Inl ''timeout'')) (mount []))) = 2"
    using a m e by simp
  from m w1 w2 show ?thesis
    by simp
qed

text \<open>
  C10.  A call of \<^verbatim>\<open>fetchTunes\<close> that passes the guard sets the error to \<^verbatim>\<open>null\<close> as it issues
  the request.  In every state reached from mounting, the error is therefore \<^verbatim>\<open>null\<close> after a
  successful fetch, and a retry clears the visible error at the moment its request
  starts.
\<close>

theorem error_cleared_on_fetch:
  assumes "st = run pr evs (mount store)"
  shows "(\<not> loading st0 \<longrightarrow>
            error (fetchTunes st0) = None \<and> loading (fetchTunes st0) \<and>
            inflight (fetchTunes st0)
              = inflight st0 @ [(page st0, ITEMS_PER_PAGE, debouncedSearch st0)])
       \<and> (inflight st \<noteq> [] \<longrightarrow>
            error (step pr (Settle (Inr r)) st) = None \<and>
            \<not> error_visible (step pr (Settle (Inr r)) st))
       \<and> (error_visible st \<longrightarrow>
            error (step pr Retry st) = None \<and> loading (step pr Retry st) \<and>
            inflight (step pr Retry st) = [(page st, ITEMS_PER_PAGE, debouncedSearch st)])"
proof -
  have c: "consistent st"
    unfolding assms by (rule reachable_consistent)
  have a: "\<not> loading st0 \<longrightarrow>
            error (fetchTunes st0) = None \<and> loading (fetchTunes st0) \<and>
            inflight (fetchTunes st0)
              = inflight st0 @ [(page st0, ITEMS_PER_PAGE, debouncedSearch st0)]"
    by (simp add: fetchTunes_def)
  have b: "inflight st \<noteq> [] \<longrightarrow>
            error (step pr (Settle (Inr r)) st) = None \<and>
            \<not> error_visible (step pr (Settle (Inr r)) st)"
    using c by (cases "inflight st") (simp_all add: step_settle_success consistent_def error_visible_def)
  have d: "error_visible st \<longrightarrow>
            error (step pr Retry st) = None \<and> loading (step pr Retry st) \<and>
            inflight (step pr Retry st) = [(page st, ITEMS_PER_PAGE, debouncedSearch st)]"
    using c by (cases "inflight st")
      (auto simp: step_Retry consistent_def error_visible_def fetchTunes_def commit_def
        fetch_effect_def debounce_effect_def)
  from a b d show ?thesis
    by blast
qed

theorem error_cleared_on_fetch_witness:
  "error_visible (run no_callbacks [Settle (Inl ''timeout'')] (mount []))
   \<and> error (step no_callbacks Retry (run no_callbacks [Settle (Inl ''timeout'')] (mount []))) = None
   \<and> inflight (step no_callbacks Retry (run no_callbacks [Settle (Inl ''timeout'')] (mount [])))
       = [(1, ITEMS_PER_PAGE, [])]
   \<and> inflight (run no_callbacks [Settle (Inl ''timeout''), Retry] (mount [])) \<noteq> []
   \<and> error (step no_callbacks (Settle (Inr [tune_abc]))
        (run no_callbacks [Settle (Inl ''timeout''), Retry] (mount []))) = None
   \<and> error (fetchTunes (run no_callbacks [Settle (Inl ''timeout'')] (mount []))) = None"
proof -
  let ?failed = "run no_callbacks [Settle (Inl ''timeout'')] (mount [])"
  let ?retried = "run no_callbacks [Settle (Inl ''timeout''), Retry] (mount [])"
  have f: "error_visible ?failed \<and> \<not> loading ?failed \<and> page ?failed = 1
      \<and> debouncedSearch ?failed = []"
    by (simp add: eval_defs)
  have r: "inflight ?retried \<noteq> []"
    by (simp add: eval_defs)
  note a = error_cleared_on_fetch [where st = ?failed and pr = no_callbacks
      and evs = "[Settle (Inl ''timeout'')]" and store = "[]" and ?st0.0 = ?failed
      and r = "[tune_abc]", OF refl]
  note b = error_cleared_on_fetch [where st = ?retried and pr = no_callbacks
      and evs = "[Settle (Inl ''timeout''), Retry]" and store = "[]" and ?st0.0 = ?failed
      and r = "[tune_abc]", OF refl]
  have w1: "error (step no_callbacks Retry ?failed) = None
      \<and> inflight (step no_callbacks Retry ?failed) = [(1, ITEMS_PER_PAGE, [])]"
    using a f by simp
  have w2: "error (step no_callbacks (Settle (Inr [tune_abc])) ?retried) = None"
    using b r by simp
  have w3: "error (fetchTunes ?failed) = None"
    using a f by simp
  from f r w1 w2 w3 show ?thesis
    by simp
qed

end
